theory Spec2Isabelle
  imports Complex_Main "HOL-Library.Word"
begin

unbundle bit_operations_syntax

section \<open>Fixed-point sine and cosine (fixed\_sincos.c)\<close>

text \<open>
  The C file works on \<open>int64_t\<close> and \<open>uint64_t\<close> values and on \<open>int\<close> constants.
  They are modelled as \<open>64 word\<close> and \<open>32 word\<close>. Unsigned \<open>+\<close>, \<open>-\<close> and \<open>*\<close> wrap,
  the cast between \<open>int64_t\<close> and \<open>uint64_t\<close> keeps the bit pattern, \<open>~\<close> is \<open>NOT\<close>,
  and the conversion from \<open>int\<close> to \<open>int64_t\<close> is the sign extension \<open>scast\<close>.
  A C \<open>bool\<close> initialised from an integer is true iff the integer is not zero.

  Shifts are those of a two's complement machine, as gcc and clang document
  them: \<open>>>\<close> on an unsigned operand is \<open>drop_bit\<close>, \<open>>>\<close> on a signed operand is
  the arithmetic shift \<open>signed_drop_bit\<close>, and \<open><<\<close> is \<open>push_bit\<close> on the bit
  pattern, also for the negative operand of \<open>-1 << width-1\<close> and for a result
  that reaches the sign bit.

  Three outcomes of the C code are not return values, and each is a branch of
  the model. The \<open>assert\<close> in \<open>clamp_overflow\<close> aborts (the model is of a build
  with assertions enabled). A shift whose count is negative, or not smaller
  than the width of the shifted type, has no defined result in C. A signed
  subtraction whose result does not fit its type has no defined result in C
  either: this is \<open>(1 << width-1) - 1\<close> on \<open>int\<close> at width 32, where \<open>1 << 31\<close>
  is the smallest \<open>int\<close>. The signed \<open>~sum + 1\<close> of \<open>sine\<close> and \<open>cosine\<close> is
  written with the addition of words; its operand is a 19-bit value there
  (\<open>sine_poly_bounds\<close>, \<open>cosine_poly_bounds\<close>), far from any overflow.
\<close>

datatype fault = AssertionFailure | UndefinedShift | SignedOverflow

subsection \<open>clamp\_overflow\<close>

text \<open>
  \<^verbatim>\<open>static int64_t clamp_overflow(int64_t value, int width)\<close>.
  The shifts of \<open>value\<close> are 64-bit shifts by \<open>width\<close> and \<open>width-1\<close>; the shifts
  \<open>-1 << width-1\<close> and \<open>1 << width-1\<close> are shifts of the 32-bit \<open>int\<close> constants,
  and the \<open>- 1\<close> of \<open>(1 << width-1) - 1\<close> is a subtraction on \<open>int\<close>, which
  overflows when the shifted value is the smallest \<open>int\<close>.
  The constant \<open>0xFFFFFFFFFFFFFFFFLL\<close> compared with \<open>high\<close> is the all-ones
  pattern, \<open>- 1\<close> as a word.
\<close>

definition clamp_overflow :: "64 word \<Rightarrow> int \<Rightarrow> fault + 64 word" where
  "clamp_overflow val width =
     (if width < 1 \<or> 64 \<le> width then Inl UndefinedShift
      else
        let high0 = (signed_drop_bit (nat width) val AND 1 \<noteq> 0);
            high1 = (signed_drop_bit (nat (width - 1)) val AND 1 \<noteq> 0);
            clamped =
              (if high0 \<noteq> high1 then
                 (if 32 \<le> width - 1 then Inl UndefinedShift
                  else if high0
                    then Inr (scast (push_bit (nat (width - 1)) (- 1 :: 32 word)))
                  else if sint (push_bit (nat (width - 1)) (1 :: 32 word)) - 1 < - (2 ^ 31)
                    then Inl SignedOverflow
                    else Inr (scast (push_bit (nat (width - 1)) (1 :: 32 word) - 1)))
               else Inr val)
        in case clamped of
             Inl e \<Rightarrow> Inl e
           | Inr val' \<Rightarrow>
               (let high = signed_drop_bit (nat (width - 1)) val'
                in if high = 0 \<or> high = - 1 then Inr val' else Inl AssertionFailure))"

subsection \<open>fixed\_to\_float\<close>

text \<open>
  \<^verbatim>\<open>double fixed_to_float(int64_t value, int scale)\<close> divides the value by
  \<open>2 ^ scale\<close>. The quotient is modelled over the reals; for the 18-bit results
  of \<open>sine\<close> and \<open>cosine\<close> and scale 17 the division by a power of two is exact
  in double precision as well.
\<close>

definition fixed_to_float :: "64 word \<Rightarrow> nat \<Rightarrow> real" where
  "fixed_to_float val scale = real_of_int (sint val) / 2 ^ scale"

subsection \<open>sine\<close>

text \<open>
  \<open>sine_sum\<close> is the body of \<^verbatim>\<open>int64_t sine(int64_t value)\<close> up to the value of
  \<open>sum\<close> that the last line hands to \<open>clamp_overflow\<close>; \<open>sine\<close> is the function.
\<close>

definition sine_sum :: "64 word \<Rightarrow> 64 word" where
  "sine_sum val =
     (let k1 = (205887 :: 64 word);
          k3 = (169336 :: 64 word);
          k5 = (167014 :: 64 word);
          k7 = (150000 :: 64 word);
          high0 = (drop_bit 19 val AND 1 \<noteq> 0);
          high1 = (drop_bit 18 val AND 1 \<noteq> 0);
          x1 = val AND 0x3ffff;
          x1 = (if high1 then (push_bit 18 1 - x1) AND 0x3ffff else x1);
          negative = high0;
          one = (x1 = 0 \<and> high1);
          x2 = drop_bit 18 (x1 * x1);
          x3 = drop_bit 18 (x2 * x1);
          x5 = drop_bit 18 (x2 * x3);
          x7 = drop_bit 18 (x2 * x5);
          kx1 = drop_bit 17 (k1 * x1);
          kx3 = drop_bit 18 (k3 * x3);
          kx5 = drop_bit 21 (k5 * x5);
          kx7 = drop_bit 25 (k7 * x7);
          sum = kx1 - kx3 + kx5 - kx7;
          sum = signed_drop_bit 1 sum;
          sum = (if one then scast (push_bit 17 (1 :: 32 word)) else sum);
          sum = (if negative then NOT sum + 1 else sum)
      in sum)"

definition sine :: "64 word \<Rightarrow> fault + 64 word" where
  "sine val = clamp_overflow (sine_sum val) 18"

subsection \<open>cosine\<close>

text \<open>
  \<open>cosine_sum\<close> is the body of \<^verbatim>\<open>int64_t cosine(int64_t value)\<close> up to the value
  of \<open>sum\<close> handed to \<open>clamp_overflow\<close>; \<open>cosine\<close> is the function.
\<close>

definition cosine_sum :: "64 word \<Rightarrow> 64 word" where
  "cosine_sum val =
     (let k2 = (161704 :: 64 word);
          k4 = (132996 :: 64 word);
          k6 = (175016 :: 64 word);
          k8 = (241700 :: 64 word);
          high0 = (drop_bit 19 val AND 1 \<noteq> 0);
          high1 = (drop_bit 18 val AND 1 \<noteq> 0);
          x1 = val AND 0x3ffff;
          x1 = (if high1 then (push_bit 18 1 - x1) AND 0x3ffff else x1);
          negative = (high0 \<noteq> high1);
          zero = (x1 = 0 \<and> high1);
          x2 = drop_bit 18 (x1 * x1);
          x4 = drop_bit 18 (x2 * x2);
          x6 = drop_bit 18 (x4 * x2);
          x8 = drop_bit 18 (x4 * x4);
          kx2 = drop_bit 17 (k2 * x2);
          kx4 = drop_bit 19 (k4 * x4);
          kx6 = drop_bit 23 (k6 * x6);
          kx8 = drop_bit 28 (k8 * x8);
          sum = push_bit 18 1 - kx2 + kx4 - kx6 + kx8;
          sum = signed_drop_bit 1 sum;
          sum = (if zero then 0 else sum);
          sum = (if negative then NOT sum + 1 else sum)
      in sum)"

definition cosine :: "64 word \<Rightarrow> fault + 64 word" where
  "cosine val = clamp_overflow (cosine_sum val) 18"

subsection \<open>Parts of the two bodies, named for the proofs\<close>

text \<open>
  Both functions reduce the low 18 bits with the same statement
  \<^verbatim>\<open>if (high1) x1 = ((1 << 18) - x1) & 0x3ffff\<close>; \<open>fold_x1\<close> is the value of \<open>x1\<close>
  after it. \<open>sine_poly\<close> and \<open>cosine_poly\<close> are the values of \<open>sum\<close> after
  \<^verbatim>\<open>sum = sum >> 1\<close>, as functions of the reduced \<open>x1\<close>. The lemmas
  \<open>sine_sum_alt\<close> and \<open>cosine_sum_alt\<close> below show that the bodies are built
  from these parts.
\<close>

definition fold_x1 :: "64 word \<Rightarrow> 64 word" where
  "fold_x1 val =
     (if bit val 18 then (push_bit 18 1 - (val AND 0x3ffff)) AND 0x3ffff
      else val AND 0x3ffff)"

definition sine_poly :: "64 word \<Rightarrow> 64 word" where
  "sine_poly x1 =
     (let x2 = drop_bit 18 (x1 * x1);
          x3 = drop_bit 18 (x2 * x1);
          x5 = drop_bit 18 (x2 * x3);
          x7 = drop_bit 18 (x2 * x5);
          kx1 = drop_bit 17 (205887 * x1);
          kx3 = drop_bit 18 (169336 * x3);
          kx5 = drop_bit 21 (167014 * x5);
          kx7 = drop_bit 25 (150000 * x7)
      in signed_drop_bit 1 (kx1 - kx3 + kx5 - kx7))"

definition cosine_poly :: "64 word \<Rightarrow> 64 word" where
  "cosine_poly x1 =
     (let x2 = drop_bit 18 (x1 * x1);
          x4 = drop_bit 18 (x2 * x2);
          x6 = drop_bit 18 (x4 * x2);
          x8 = drop_bit 18 (x4 * x4);
          kx2 = drop_bit 17 (161704 * x2);
          kx4 = drop_bit 19 (132996 * x4);
          kx6 = drop_bit 23 (175016 * x6);
          kx8 = drop_bit 28 (241700 * x8)
      in signed_drop_bit 1 (push_bit 18 1 - kx2 + kx4 - kx6 + kx8))"

text \<open>
  The value \<open>clamp_overflow\<close> returns for width 18 when the bits of its argument
  above position 18 repeat bit 18, that is for a 19-bit signed argument.
\<close>

definition saturate18 :: "64 word \<Rightarrow> 64 word" where
  "saturate18 val =
     (if 131072 \<le> sint val then 131071
      else if sint val < - 131072 then - 131072
      else val)"

section \<open>Shifts, bits and signed values\<close>

lemma sdb_and_one: "n < 64 \<Longrightarrow> (signed_drop_bit n (v :: 64 word) AND 1 \<noteq> 0) = bit v n"
proof -
  assume n: "n < 64"
  have "(signed_drop_bit n v AND 1 \<noteq> 0) = bit (signed_drop_bit n v) 0"
    by (simp add: and_one_eq mod2_eq_if bit_0)
  also have "\<dots> = bit v n"
    using n by (simp add: bit_signed_drop_bit_iff)
  finally show ?thesis .
qed

lemma db_and_one: "(drop_bit n (v :: 64 word) AND 1 \<noteq> 0) = bit v n"
  by (simp add: bit_iff_odd_drop_bit and_one_eq mod2_eq_if)

lemma sint_inj64: "(sint (a :: 64 word) = sint b) = (a = b)"
proof
  assume "sint a = sint b"
  then have "(word_of_int (sint a) :: 64 word) = word_of_int (sint b)" by simp
  then show "a = b" by simp
qed simp

lemma int_div_eq_iff:
  fixes i d q :: int
  assumes "0 < d"
  shows "(i div d = q) = (q * d \<le> i \<and> i < (q + 1) * d)"
proof
  assume "i div d = q"
  then have "i = q * d + i mod d" by (metis div_mult_mod_eq)
  moreover have "0 \<le> i mod d" "i mod d < d" using assms by simp_all
  ultimately show "q * d \<le> i \<and> i < (q + 1) * d" by (simp add: algebra_simps)
next
  assume a: "q * d \<le> i \<and> i < (q + 1) * d"
  have "i = d * q + (i - q * d)" by simp
  moreover have "0 \<le> i - q * d" "i - q * d < d" using a by (simp_all add: algebra_simps)
  ultimately show "i div d = q" by (rule int_div_pos_eq)
qed

text \<open>An arithmetic shift leaves only copies of the sign iff the value fits in \<open>n + 1\<close> bits.\<close>

lemma sdb_fits_iff:
  "(signed_drop_bit n (v :: 64 word) = 0 \<or> signed_drop_bit n v = - 1)
     = (- (2 ^ n) \<le> sint v \<and> sint v < 2 ^ n)"
proof -
  have a: "(signed_drop_bit n v = 0) = (sint v div 2 ^ n = 0)"
    using sint_inj64 [of "signed_drop_bit n v" 0]
    by (simp add: sint_signed_drop_bit_eq drop_bit_eq_div)
  have b: "(signed_drop_bit n v = - 1) = (sint v div 2 ^ n = - 1)"
    using sint_inj64 [of "signed_drop_bit n v" "- 1"]
    by (simp add: sint_signed_drop_bit_eq drop_bit_eq_div)
  have p: "(0::int) < 2 ^ n" by simp
  show ?thesis unfolding a b int_div_eq_iff [OF p] by auto
qed

lemma scast_neg: "n < 32 \<Longrightarrow> (scast (push_bit n (- 1 :: 32 word)) :: 64 word) = - (2 ^ n)"
  unfolding minus_exp_eq_not_mask push_bit_minus_one_eq_not_mask
  by (rule bit_word_eqI) (auto simp add: bit_simps)

lemma scast_pos: "n < 32 \<Longrightarrow> (scast (push_bit n (1 :: 32 word) - 1) :: 64 word) = 2 ^ n - 1"
  unfolding push_bit_of_1 mask_eq_exp_minus_1 [symmetric]
  by (rule bit_word_eqI) (auto simp add: bit_simps)

lemma sdb_zero_iff:
  "n < 64 \<Longrightarrow>
   (signed_drop_bit n (v :: 64 word) = 0) = (\<forall>k. n \<le> k \<and> k < 64 \<longrightarrow> \<not> bit v k)"
  apply (simp add: bit_eq_iff bit_signed_drop_bit_iff)
  apply (rule iffI)
   apply clarify
  subgoal for k
    apply (drule spec [of _ "k - n"])
    apply (auto split: if_splits)
    done
  apply (auto split: if_splits)
  done

lemma sdb_ones_iff:
  "n < 64 \<Longrightarrow>
   (signed_drop_bit n (v :: 64 word) = - 1) = (\<forall>k. n \<le> k \<and> k < 64 \<longrightarrow> bit v k)"
  apply (simp add: bit_eq_iff bit_signed_drop_bit_iff)
  apply (rule iffI)
   apply clarify
  subgoal for k
    apply (drule spec [of _ "k - n"])
    apply (auto split: if_splits)
    done
  apply (auto split: if_splits)
  done

lemma sdb_step:
  assumes "0 < n" "n < 64"
    and "signed_drop_bit n (v :: 64 word) = 0 \<or> signed_drop_bit n v = - 1"
    and "bit v n = bit v (n - 1)"
  shows "signed_drop_bit (n - 1) v = 0 \<or> signed_drop_bit (n - 1) v = - 1"
proof -
  have m: "n - 1 < 64" using assms by simp
  have k: "\<And>k. (n - 1 \<le> k) = (k = n - 1 \<or> n \<le> k)" using assms by auto
  show ?thesis
    using assms(3,4) unfolding sdb_zero_iff [OF assms(2)] sdb_ones_iff [OF assms(2)]
      sdb_zero_iff [OF m] sdb_ones_iff [OF m] k
    using assms(2) by blast
qed

lemma sdb_neg_exp: "n < 64 \<Longrightarrow> signed_drop_bit n (- (2 ^ n) :: 64 word) = - 1"
  unfolding minus_exp_eq_not_mask
  by (rule bit_word_eqI) (auto simp add: bit_simps bit_signed_drop_bit_iff)

lemma sdb_mask: "n < 64 \<Longrightarrow> signed_drop_bit n (2 ^ n - 1 :: 64 word) = 0"
  unfolding mask_eq_exp_minus_1 [symmetric]
  by (rule bit_word_eqI) (auto simp add: bit_simps bit_signed_drop_bit_iff)

lemma int_one_shifted_overflow:
  assumes "n < 32"
  shows "(sint (push_bit n (1 :: 32 word)) - 1 < - (2 ^ 31)) = (n = 31)"
proof (cases "n = 31")
  case True
  then show ?thesis by simp
next
  case False
  then have "n < 31" using assms by simp
  then have "(2 :: int) ^ n < 2 ^ 31" by (intro power_strict_increasing) simp_all
  moreover have "- (2 ^ 31) \<le> (2 :: int) ^ n"
    by (rule order_trans [of _ 0]) simp_all
  ultimately have "signed_take_bit 31 ((2 :: int) ^ n) = 2 ^ n"
    by (intro signed_take_bit_int_eq_self)
  moreover have "sint (word_of_int (2 ^ n) :: 32 word) = signed_take_bit 31 ((2 :: int) ^ n)"
    by (simp only: sint_sbintrunc') simp
  ultimately have "sint (push_bit n (1 :: 32 word)) = 2 ^ n"
    by (simp add: push_bit_of_1)
  then have "0 < sint (push_bit n (1 :: 32 word))" by simp
  moreover have "(0 :: int) < 2 ^ 31" by simp
  ultimately have "\<not> sint (push_bit n (1 :: 32 word)) - 1 < - (2 ^ 31)" by linarith
  then show ?thesis using False by simp
qed

section \<open>clamp\_overflow\<close>

text \<open>Whatever \<open>clamp_overflow\<close> returns has passed its assertion.\<close>

lemma clamp_overflow_post:
  "clamp_overflow v w = Inr r \<Longrightarrow>
   signed_drop_bit (nat (w - 1)) r = 0 \<or> signed_drop_bit (nat (w - 1)) r = - 1"
  by (auto simp add: clamp_overflow_def Let_def split: if_splits sum.splits)

lemma clamp_overflow_bits:
  assumes "1 \<le> w" "w \<le> 63"
  shows "clamp_overflow v w =
     (if bit v (nat w) \<noteq> bit v (nat (w - 1)) then
        (if 33 \<le> w then Inl UndefinedShift
         else if bit v (nat w) then Inr (- (2 ^ nat (w - 1)))
         else if w = 32 then Inl SignedOverflow
         else Inr (2 ^ nat (w - 1) - 1))
      else if signed_drop_bit (nat (w - 1)) v = 0 \<or> signed_drop_bit (nat (w - 1)) v = - 1
        then Inr v else Inl AssertionFailure)"
proof -
  have a: "nat w < 64" "nat (w - 1) < 64" using assms by simp_all
  note hb = sdb_and_one [OF a(1)] sdb_and_one [OF a(2)]
  show ?thesis
  proof (cases "bit v (nat w) = bit v (nat (w - 1))")
    case True
    then show ?thesis using assms by (simp add: clamp_overflow_def Let_def hb)
  next
    case differ: False
    show ?thesis
    proof (cases "33 \<le> w")
      case True
      then show ?thesis using assms differ by (simp add: clamp_overflow_def Let_def hb)
    next
      case False
      then have b: "nat (w - 1) < 32" by simp
      have c1: "(scast (NOT (mask (nat (w - 1))) :: 32 word) :: 64 word) = - (2 ^ nat (w - 1))"
        using scast_neg [OF b] by simp
      have c2: "(scast (2 ^ nat (w - 1) - 1 :: 32 word) :: 64 word) = 2 ^ nat (w - 1) - 1"
        using scast_pos [OF b] by simp
      have "(sint (push_bit (nat (w - 1)) (1 :: 32 word)) - 1 < - (2 ^ 31)) = (w = 32)"
        using int_one_shifted_overflow [OF b] assms by auto
      then have c3: "(sint (2 ^ nat (w - 1) :: 32 word) - 1 < - 2147483648) = (w = 32)"
        by (simp add: push_bit_of_1)
      show ?thesis
        using assms differ False
        by (simp add: clamp_overflow_def Let_def hb c1 c2 c3
            sdb_neg_exp [OF a(2)] sdb_mask [OF a(2)])
    qed
  qed
qed

text \<open>
  The widths at which the constant of the saturating branch has a defined
  value: up to 32 for \<open>-1 << width-1\<close>, up to 31 for \<open>(1 << width-1) - 1\<close>.
\<close>

lemma clamp_overflow_fits:
  assumes "1 \<le> w" "w \<le> 63"
    and "signed_drop_bit (nat w) v = 0 \<or> signed_drop_bit (nat w) v = - 1"
    and "bit v (nat w) = bit v (nat (w - 1)) \<or> w \<le> (if bit v (nat w) then 32 else 31)"
  shows "clamp_overflow v w =
     Inr (if bit v (nat w) \<noteq> bit v (nat (w - 1))
          then if bit v (nat w) then - (2 ^ nat (w - 1)) else 2 ^ nat (w - 1) - 1
          else v)"
proof -
  have n: "0 < nat w" "nat w < 64" "nat (w - 1) = nat w - 1" using assms by simp_all
  have "bit v (nat w) = bit v (nat (w - 1)) \<Longrightarrow>
        signed_drop_bit (nat (w - 1)) v = 0 \<or> signed_drop_bit (nat (w - 1)) v = - 1"
    using sdb_step [OF n(1) n(2) assms(3)] n(3) by simp
  then show ?thesis
    using assms(4) unfolding clamp_overflow_bits [OF assms(1,2)] by (auto split: if_splits)
qed

section \<open>The reduced argument and the polynomials\<close>

lemma sine_sum_alt:
  "sine_sum v =
     (let s = (if fold_x1 v = 0 \<and> bit v 18 then 131072 else sine_poly (fold_x1 v))
      in if bit v 19 then - s else s)"
  by (simp add: sine_sum_def Let_def db_and_one fold_x1_def sine_poly_def minus_eq_not_plus_1)

lemma cosine_sum_alt:
  "cosine_sum v =
     (let s = (if fold_x1 v = 0 \<and> bit v 18 then 0 else cosine_poly (fold_x1 v))
      in if bit v 19 \<noteq> bit v 18 then - s else s)"
  by (simp add: cosine_sum_def Let_def db_and_one fold_x1_def cosine_poly_def minus_eq_not_plus_1)

lemma mask18: "(0x3ffff :: 64 word) = mask 18"
  by (simp add: mask_eq_exp_minus_1)

lemma and_mask18_bound: "unat ((v :: 64 word) AND 0x3ffff) < 2 ^ 18"
proof -
  have "unat (take_bit 18 v) < 2 ^ 18"
    by (simp only: unsigned_take_bit_eq take_bit_nat_less_exp)
  then show ?thesis by (simp add: mask18 take_bit_eq_mask)
qed

lemma fold_x1_bound: "unat (fold_x1 v) < 2 ^ 18"
  unfolding fold_x1_def using and_mask18_bound by (simp del: push_bit_of_1)

lemma mulshift_bound:
  fixes x y :: "64 word"
  assumes "unat x < 2 ^ 18" "unat y < 2 ^ 18"
  shows "unat (drop_bit 18 (x * y)) < 2 ^ 18"
proof -
  have "unat x * unat y < 2 ^ 18 * 2 ^ 18"
    using assms by (intro mult_strict_mono) simp_all
  then have p: "unat x * unat y < 2 ^ 36" by simp
  then have "unat x * unat y < 2 ^ LENGTH(64)" by simp
  then have "unat (x * y) = unat x * unat y" by (simp only: unat_mult_lem)
  then have "drop_bit 18 (unat (x * y)) = (unat x * unat y) div 2 ^ 18"
    by (simp add: drop_bit_eq_div)
  then have "unat (drop_bit 18 (x * y)) = (unat x * unat y) div 2 ^ 18"
    by (simp only: unat_drop_bit_eq)
  also have "\<dots> < 2 ^ 18" using p by (simp add: less_mult_imp_div_less)
  finally show ?thesis .
qed

lemma constshift_bound:
  fixes x k :: "64 word"
  assumes "unat x < 2 ^ 18" "unat k < 2 ^ 18"
  shows "unat (drop_bit n (k * x)) \<le> (unat k * 2 ^ 18) div 2 ^ n"
proof -
  have le: "unat k * unat x \<le> unat k * 2 ^ 18"
    using assms by (intro mult_le_mono2) simp
  have "unat k * unat x < 2 ^ 18 * 2 ^ 18"
    using assms by (intro mult_strict_mono) simp_all
  then have "unat k * unat x < 2 ^ LENGTH(64)" by simp
  then have "unat (k * x) = unat k * unat x" by (simp only: unat_mult_lem)
  then have "drop_bit n (unat (k * x)) = (unat k * unat x) div 2 ^ n"
    by (simp add: drop_bit_eq_div)
  then have "unat (drop_bit n (k * x)) = (unat k * unat x) div 2 ^ n"
    by (simp only: unat_drop_bit_eq)
  also have "\<dots> \<le> (unat k * 2 ^ 18) div 2 ^ n" using le by (rule div_le_mono)
  finally show ?thesis .
qed

lemma uint_le_of_unat: "unat (w :: 64 word) \<le> n \<Longrightarrow> uint w \<le> int n"
  by (simp only: uint_nat of_nat_le_iff)

lemma sint_of_small_int:
  assumes "- 9223372036854775808 \<le> i" "i < 9223372036854775808"
  shows "sint (word_of_int i :: 64 word) = i"
proof -
  have "sint (word_of_int i :: 64 word) = signed_take_bit 63 i"
    by (simp only: sint_sbintrunc') simp
  also have "\<dots> = i"
    using assms by (intro signed_take_bit_int_eq_self) simp_all
  finally show ?thesis .
qed

lemma sint_alt_sum:
  fixes a b c d :: "64 word"
  assumes "uint a < 1048576" "uint b < 1048576" "uint c < 1048576" "uint d < 1048576"
  shows "sint (a - b + c - d) = uint a - uint b + uint c - uint d"
proof -
  let ?i = "uint a - uint b + uint c - uint d"
  have n: "0 \<le> uint a" "0 \<le> uint b" "0 \<le> uint c" "0 \<le> uint d" by simp_all
  have w: "a - b + c - d = word_of_int ?i" by simp
  have "sint (word_of_int ?i :: 64 word) = ?i"
    using assms n by (intro sint_of_small_int) linarith+
  then show ?thesis by (simp only: w)
qed

lemma sint_alt_sum_one:
  fixes b c d e :: "64 word"
  assumes "uint b < 1048576" "uint c < 1048576" "uint d < 1048576" "uint e < 1048576"
  shows "sint (262144 - b + c - d + e) = 262144 - uint b + uint c - uint d + uint e"
proof -
  let ?i = "262144 - uint b + uint c - uint d + uint e"
  have n: "0 \<le> uint b" "0 \<le> uint c" "0 \<le> uint d" "0 \<le> uint e" by simp_all
  have w: "262144 - b + c - d + e = word_of_int ?i" by simp
  have "sint (word_of_int ?i :: 64 word) = ?i"
    using assms n by (intro sint_of_small_int) linarith+
  then show ?thesis by (simp only: w)
qed

lemma sine_poly_bounds:
  assumes "unat x1 < 2 ^ 18"
  shows "- 85254 \<le> sint (sine_poly x1)" and "sint (sine_poly x1) \<le> 216325"
proof -
  define x2 where "x2 = drop_bit 18 (x1 * x1)"
  define x3 where "x3 = drop_bit 18 (x2 * x1)"
  define x5 where "x5 = drop_bit 18 (x2 * x3)"
  define x7 where "x7 = drop_bit 18 (x2 * x5)"
  define kx1 where "kx1 = drop_bit 17 (205887 * x1)"
  define kx3 where "kx3 = drop_bit 18 (169336 * x3)"
  define kx5 where "kx5 = drop_bit 21 (167014 * x5)"
  define kx7 where "kx7 = drop_bit 25 (150000 * x7)"
  have b2: "unat x2 < 2 ^ 18" unfolding x2_def using assms assms by (rule mulshift_bound)
  have b3: "unat x3 < 2 ^ 18" unfolding x3_def using b2 assms by (rule mulshift_bound)
  have b5: "unat x5 < 2 ^ 18" unfolding x5_def using b2 b3 by (rule mulshift_bound)
  have b7: "unat x7 < 2 ^ 18" unfolding x7_def using b2 b5 by (rule mulshift_bound)
  have k1: "uint kx1 \<le> 411774"
    unfolding kx1_def using uint_le_of_unat [OF constshift_bound [OF assms, of 205887 17]] by simp
  have k3: "uint kx3 \<le> 169336"
    unfolding kx3_def using uint_le_of_unat [OF constshift_bound [OF b3, of 169336 18]] by simp
  have k5: "uint kx5 \<le> 20876"
    unfolding kx5_def using uint_le_of_unat [OF constshift_bound [OF b5, of 167014 21]] by simp
  have k7: "uint kx7 \<le> 1171"
    unfolding kx7_def using uint_le_of_unat [OF constshift_bound [OF b7, of 150000 25]] by simp
  have n: "0 \<le> uint kx1" "0 \<le> uint kx3" "0 \<le> uint kx5" "0 \<le> uint kx7" by simp_all
  have s: "sint (kx1 - kx3 + kx5 - kx7) = uint kx1 - uint kx3 + uint kx5 - uint kx7"
    using k1 k3 k5 k7 by (intro sint_alt_sum) linarith+
  have p: "sine_poly x1 = signed_drop_bit 1 (kx1 - kx3 + kx5 - kx7)"
    by (simp add: sine_poly_def Let_def x2_def x3_def x5_def x7_def kx1_def kx3_def kx5_def kx7_def)
  have d: "sint (sine_poly x1) = (uint kx1 - uint kx3 + uint kx5 - uint kx7) div 2"
    unfolding p sint_signed_drop_bit_eq s by (simp add: drop_bit_eq_div)
  show "- 85254 \<le> sint (sine_poly x1)" unfolding d using k1 k3 k5 k7 n by linarith
  show "sint (sine_poly x1) \<le> 216325" unfolding d using k1 k3 k5 k7 n by linarith
qed

lemma cosine_poly_bounds:
  assumes "unat x1 < 2 ^ 18"
  shows "- 33367 \<le> sint (cosine_poly x1)" and "sint (cosine_poly x1) \<le> 164439"
proof -
  define x2 where "x2 = drop_bit 18 (x1 * x1)"
  define x4 where "x4 = drop_bit 18 (x2 * x2)"
  define x6 where "x6 = drop_bit 18 (x4 * x2)"
  define x8 where "x8 = drop_bit 18 (x4 * x4)"
  define kx2 where "kx2 = drop_bit 17 (161704 * x2)"
  define kx4 where "kx4 = drop_bit 19 (132996 * x4)"
  define kx6 where "kx6 = drop_bit 23 (175016 * x6)"
  define kx8 where "kx8 = drop_bit 28 (241700 * x8)"
  have b2: "unat x2 < 2 ^ 18" unfolding x2_def using assms assms by (rule mulshift_bound)
  have b4: "unat x4 < 2 ^ 18" unfolding x4_def using b2 b2 by (rule mulshift_bound)
  have b6: "unat x6 < 2 ^ 18" unfolding x6_def using b4 b2 by (rule mulshift_bound)
  have b8: "unat x8 < 2 ^ 18" unfolding x8_def using b4 b4 by (rule mulshift_bound)
  have k2: "uint kx2 \<le> 323408"
    unfolding kx2_def using uint_le_of_unat [OF constshift_bound [OF b2, of 161704 17]] by simp
  have k4: "uint kx4 \<le> 66498"
    unfolding kx4_def using uint_le_of_unat [OF constshift_bound [OF b4, of 132996 19]] by simp
  have k6: "uint kx6 \<le> 5469"
    unfolding kx6_def using uint_le_of_unat [OF constshift_bound [OF b6, of 175016 23]] by simp
  have k8: "uint kx8 \<le> 236"
    unfolding kx8_def using uint_le_of_unat [OF constshift_bound [OF b8, of 241700 28]] by simp
  have n: "0 \<le> uint kx2" "0 \<le> uint kx4" "0 \<le> uint kx6" "0 \<le> uint kx8" by simp_all
  have s: "sint (262144 - kx2 + kx4 - kx6 + kx8)
             = 262144 - uint kx2 + uint kx4 - uint kx6 + uint kx8"
    using k2 k4 k6 k8 by (intro sint_alt_sum_one) linarith+
  have p: "cosine_poly x1 = signed_drop_bit 1 (262144 - kx2 + kx4 - kx6 + kx8)"
    by (simp add: cosine_poly_def Let_def x2_def x4_def x6_def x8_def
        kx2_def kx4_def kx6_def kx8_def)
  have d: "sint (cosine_poly x1) = (262144 - uint kx2 + uint kx4 - uint kx6 + uint kx8) div 2"
    unfolding p sint_signed_drop_bit_eq s by (simp add: drop_bit_eq_div)
  show "- 33367 \<le> sint (cosine_poly x1)" unfolding d using k2 k4 k6 k8 n by linarith
  show "sint (cosine_poly x1) \<le> 164439" unfolding d using k2 k4 k6 k8 n by linarith
qed

section \<open>The sums handed to the clamp and the results\<close>

lemma sint_neg64:
  assumes "- 9223372036854775808 < sint (a :: 64 word)"
  shows "sint (- a) = - sint a"
proof -
  have "sint a < 2 ^ (LENGTH(64) - 1)" by (rule sint_lt)
  then have u: "sint a < 9223372036854775808" by simp
  have "- a = word_of_int (- sint a)" by simp
  moreover have "sint (word_of_int (- sint a) :: 64 word) = - sint a"
    using assms u by (intro sint_of_small_int) linarith+
  ultimately show ?thesis by simp
qed

lemma sine_sum_range: "- 216325 \<le> sint (sine_sum v) \<and> sint (sine_sum v) \<le> 216325"
proof -
  define s where "s = (if fold_x1 v = 0 \<and> bit v 18 then 131072 else sine_poly (fold_x1 v))"
  have b: "- 85254 \<le> sint s \<and> sint s \<le> 216325"
    unfolding s_def using sine_poly_bounds [OF fold_x1_bound, of v] by simp
  then have n: "sint (- s) = - sint s" by (intro sint_neg64) linarith
  have "sine_sum v = (if bit v 19 then - s else s)"
    by (simp add: sine_sum_alt s_def)
  then show ?thesis using b n by auto
qed

lemma cosine_sum_range: "- 164439 \<le> sint (cosine_sum v) \<and> sint (cosine_sum v) \<le> 164439"
proof -
  define s where "s = (if fold_x1 v = 0 \<and> bit v 18 then 0 else cosine_poly (fold_x1 v))"
  have b: "- 33367 \<le> sint s \<and> sint s \<le> 164439"
    unfolding s_def using cosine_poly_bounds [OF fold_x1_bound, of v] by simp
  then have n: "sint (- s) = - sint s" by (intro sint_neg64) linarith
  have "cosine_sum v = (if bit v 19 \<noteq> bit v 18 then - s else s)"
    by (simp add: cosine_sum_alt s_def)
  then show ?thesis using b n by auto
qed

lemma bit_sint64: "n < 64 \<Longrightarrow> bit (v :: 64 word) n = odd (sint v div 2 ^ n)"
  by (simp add: bit_sint_iff flip: bit_iff_odd)

lemma bit18_iff:
  assumes "- 262144 \<le> sint (v :: 64 word)" "sint v < 262144"
  shows "bit v 18 = (sint v < 0)"
proof (cases "sint v < 0")
  case True
  then have "sint v div 2 ^ 18 = - 1" using assms by (simp add: int_div_eq_iff)
  then show ?thesis using True by (simp add: bit_sint64)
next
  case False
  then have "sint v div 2 ^ 18 = 0" using assms by (simp add: int_div_eq_iff)
  then show ?thesis using False by (simp add: bit_sint64)
qed

lemma bit17_iff:
  assumes "- 262144 \<le> sint (v :: 64 word)" "sint v < 262144"
  shows "bit v 17 = (131072 \<le> sint v \<or> - 131072 \<le> sint v \<and> sint v < 0)"
proof -
  consider "sint v < - 131072" | "- 131072 \<le> sint v \<and> sint v < 0"
    | "0 \<le> sint v \<and> sint v < 131072" | "131072 \<le> sint v" by linarith
  then show ?thesis
  proof cases
    case 1
    then have "sint v div 2 ^ 17 = - 2" using assms by (simp add: int_div_eq_iff)
    then show ?thesis using 1 by (simp add: bit_sint64)
  next
    case 2
    then have "sint v div 2 ^ 17 = - 1" using assms by (simp add: int_div_eq_iff)
    then show ?thesis using 2 by (simp add: bit_sint64)
  next
    case 3
    then have "sint v div 2 ^ 17 = 0" using assms by (simp add: int_div_eq_iff)
    then show ?thesis using 3 by (simp add: bit_sint64)
  next
    case 4
    then have "sint v div 2 ^ 17 = 1" using assms by (simp add: int_div_eq_iff)
    then show ?thesis using 4 by (simp add: bit_sint64)
  qed
qed

lemma clamp_overflow_18:
  assumes "- 262144 \<le> sint v" "sint v < 262144"
  shows "clamp_overflow v 18 = Inr (saturate18 v)"
proof -
  have f: "signed_drop_bit (nat 18) v = 0 \<or> signed_drop_bit (nat 18) v = - 1"
    using assms by (simp add: sdb_fits_iff)
  show ?thesis
    using assms
    by (simp add: clamp_overflow_fits [OF _ _ f] bit18_iff bit17_iff saturate18_def)
qed

lemma saturate18_range: "- 131072 \<le> sint (saturate18 v) \<and> sint (saturate18 v) \<le> 131071"
  by (simp add: saturate18_def)

lemma sine_eq: "sine v = Inr (saturate18 (sine_sum v))"
  unfolding sine_def using sine_sum_range [of v] by (intro clamp_overflow_18) linarith+

lemma cosine_eq: "cosine v = Inr (saturate18 (cosine_sum v))"
  unfolding cosine_def using cosine_sum_range [of v] by (intro clamp_overflow_18) linarith+

section \<open>Bits of the argument that the functions read\<close>

lemma low20_parts:
  "(v mod 2 ^ 20) AND 0x3ffff = (v :: 64 word) AND 0x3ffff"
  "bit (v mod 2 ^ 20) 18 = bit v 18"
  "bit (v mod 2 ^ 20) 19 = bit v 19"
  unfolding mask18 take_bit_eq_mod [symmetric]
  by (simp_all add: bit_take_bit_iff flip: take_bit_eq_mask)

lemma fold_x1_low20: "fold_x1 (v mod 2 ^ 20) = fold_x1 v"
  by (simp only: fold_x1_def low20_parts)

lemma flip_bit_low:
  "18 \<le> n \<Longrightarrow> (v XOR 2 ^ n) AND mask 18 = (v :: 64 word) AND mask 18"
  by (rule bit_word_eqI) (auto simp add: bit_simps)

lemma flip_bit_bit:
  "k < 64 \<Longrightarrow> bit ((v :: 64 word) XOR 2 ^ n) k = (bit v k \<noteq> (k = n))"
  by (auto simp add: bit_simps)

lemma flip19_parts:
  "(v XOR 2 ^ 19) AND 0x3ffff = (v :: 64 word) AND 0x3ffff"
  "bit (v XOR 2 ^ 19) 18 = bit v 18"
  "bit (v XOR 2 ^ 19) 19 = (\<not> bit v 19)"
  using flip_bit_low [of 19 v] flip_bit_bit [of 18 v 19] flip_bit_bit [of 19 v 19]
  by (simp_all add: mask18)

lemma fold_x1_flip19: "fold_x1 (v XOR 2 ^ 19) = fold_x1 v"
  by (simp only: fold_x1_def flip19_parts)

lemma saturate18_neg:
  assumes "- 131072 < sint t" "sint t < 262144"
  shows "(saturate18 (- t) = - saturate18 t)
           = (saturate18 t \<noteq> - 131072 \<and> saturate18 (- t) \<noteq> - 131072)"
    and "(saturate18 t = - saturate18 (- t))
           = (saturate18 (- t) \<noteq> - 131072 \<and> saturate18 t \<noteq> - 131072)"
proof -
  have n: "sint (- t) = - sint t" using assms by (intro sint_neg64) linarith
  have m: "sint (- 131072 :: 64 word) = - 131072" by simp
  have ne: "- 131072 < sint (x :: 64 word) \<Longrightarrow> x \<noteq> - 131072" for x
    using m by auto
  have eq: "sint (x :: 64 word) = - 131072 \<Longrightarrow> x = - 131072" for x
    using sint_inj64 [of x "- 131072"] m by simp
  show "(saturate18 (- t) = - saturate18 t)
           = (saturate18 t \<noteq> - 131072 \<and> saturate18 (- t) \<noteq> - 131072)"
  proof (cases "131072 \<le> sint t")
    case True
    then have a: "saturate18 t = 131071" by (simp add: saturate18_def)
    have b: "saturate18 (- t) = - 131072"
      using True n eq [of "- t"] by (auto simp add: saturate18_def)
    show ?thesis by (simp add: a b)
  next
    case False
    then have a: "saturate18 t = t" using assms by (simp add: saturate18_def)
    have b: "saturate18 (- t) = - t" using False assms n by (simp add: saturate18_def)
    show ?thesis using assms False n ne [of t] ne [of "- t"] by (simp add: a b)
  qed
  then show "(saturate18 t = - saturate18 (- t))
           = (saturate18 (- t) \<noteq> - 131072 \<and> saturate18 t \<noteq> - 131072)"
    by (metis add.inverse_inverse)
qed

lemma sine_flip19:
  "(saturate18 (sine_sum (v XOR 2 ^ 19)) = - saturate18 (sine_sum v))
     = (saturate18 (sine_sum v) \<noteq> - 131072 \<and> saturate18 (sine_sum (v XOR 2 ^ 19)) \<noteq> - 131072)"
proof -
  define t where "t = (if fold_x1 v = 0 \<and> bit v 18 then 131072 else sine_poly (fold_x1 v))"
  have b: "- 131072 < sint t" "sint t < 262144"
    unfolding t_def using sine_poly_bounds [OF fold_x1_bound, of v] by simp_all
  have s: "sine_sum v = (if bit v 19 then - t else t)"
    by (simp add: sine_sum_alt t_def)
  define v' where "v' = v XOR 2 ^ 19"
  have p: "fold_x1 v' = fold_x1 v" "bit v' 18 = bit v 18" "bit v' 19 = (\<not> bit v 19)"
    unfolding v'_def by (rule fold_x1_flip19 flip19_parts)+
  have s': "sine_sum v' = (if bit v 19 then t else - t)"
    by (simp add: sine_sum_alt p t_def)
  show ?thesis
    unfolding v'_def [symmetric] using saturate18_neg [OF b] by (simp add: s s')
qed

section \<open>The properties of the specification\<close>

text \<open>
  C1 (as stated: at the quarter turn, angle \<open>2 ^ 18\<close>, \<open>sine\<close> returns exactly
  \<open>2 ^ 17 = 131072\<close>, decoding to exactly 1.0). The code does not: it sets \<open>sum\<close>
  to \<open>1 << 17\<close>, and \<open>clamp_overflow\<close> then finds bit 18 clear and bit 17 set
  and replaces the value by \<open>(1 << 17) - 1\<close>.
\<close>

theorem sine_quarter_turn_not_one: "sine 262144 \<noteq> Inr 131072"
  by (simp add: sine_def sine_sum_def clamp_overflow_def)

text \<open>
  C1 (amended): at angle \<open>2 ^ 18\<close> the sum before the clamp is exactly \<open>2 ^ 17\<close>,
  and \<open>sine\<close> returns \<open>2 ^ 17 - 1 = 131071\<close>, the largest 18-bit two's complement
  value, which decodes at scale \<open>2 ^ 17\<close> to \<open>131071 / 131072\<close>.
\<close>

theorem sine_quarter_turn:
  "sine_sum 262144 = 131072 \<and> sine 262144 = Inr 131071
     \<and> fixed_to_float 131071 17 = 131071 / 131072"
  by (simp add: sine_def sine_sum_def clamp_overflow_def fixed_to_float_def)

text \<open>
  C6: at the quarter turn, angle \<open>2 ^ 18\<close>, \<open>cosine\<close> returns exactly \<open>0\<close>.
\<close>

theorem cosine_quarter_turn: "cosine 262144 = Inr 0"
  by (simp add: cosine_def cosine_sum_def clamp_overflow_def)

text \<open>
  C7 (as stated: at angle 0, \<open>sine\<close> returns 0 and \<open>cosine\<close> returns exactly
  \<open>131072\<close>). The second half fails: the sum of \<open>cosine\<close> is \<open>2 ^ 18 >> 1 = 131072\<close>
  and the clamp replaces it by \<open>131071\<close>.
\<close>

theorem cosine_zero_not_one: "cosine 0 \<noteq> Inr 131072"
  by (simp add: cosine_def cosine_sum_def clamp_overflow_def)

text \<open>
  C7 (amended): at angle 0, \<open>sine\<close> returns exactly \<open>0\<close>; the sum of \<open>cosine\<close>
  before the clamp is exactly \<open>131072\<close>, and \<open>cosine\<close> returns \<open>131071\<close>.
\<close>

theorem sine_cosine_zero:
  "sine 0 = Inr 0 \<and> cosine_sum 0 = 131072 \<and> cosine 0 = Inr 131071"
  by (simp add: sine_def sine_sum_def cosine_def cosine_sum_def clamp_overflow_def)

text \<open>
  C2: for every valid 20-bit input, \<open>sine\<close> and \<open>cosine\<close> return a value, and the
  value decoded at scale \<open>2 ^ 17\<close> (divided by 131072) lies in \<open>[-1, 1]\<close>.
\<close>

theorem sine_cosine_decoded_range:
  assumes "v < 2 ^ 20"
  shows "\<exists>s c. sine v = Inr s \<and> cosine v = Inr c
           \<and> - 1 \<le> fixed_to_float s 17 \<and> fixed_to_float s 17 \<le> 1
           \<and> - 1 \<le> fixed_to_float c 17 \<and> fixed_to_float c 17 \<le> 1"
proof -
  have d: "- 1 \<le> fixed_to_float (saturate18 x) 17 \<and> fixed_to_float (saturate18 x) 17 \<le> 1" for x
  proof -
    have "- 131072 \<le> sint (saturate18 x)" "sint (saturate18 x) \<le> 131072"
      using saturate18_range [of x] by simp_all
    then have "- 131072 \<le> real_of_int (sint (saturate18 x))"
      "real_of_int (sint (saturate18 x)) \<le> 131072"
      by linarith+
    then show ?thesis by (simp add: fixed_to_float_def divide_simps)
  qed
  show ?thesis using d [of "sine_sum v"] d [of "cosine_sum v"]
    by (simp add: sine_eq cosine_eq)
qed

theorem sine_cosine_decoded_range_witness:
  "(300000 :: 64 word) < 2 ^ 20
     \<and> (\<exists>s c. sine 300000 = Inr s \<and> cosine 300000 = Inr c
           \<and> - 1 \<le> fixed_to_float s 17 \<and> fixed_to_float s 17 \<le> 1
           \<and> - 1 \<le> fixed_to_float c 17 \<and> fixed_to_float c 17 \<le> 1)"
  using sine_cosine_decoded_range [of 300000] by simp

text \<open>
  C3: for every input in \<open>[0, 2 ^ 20)\<close> both functions return a value; the
  assertion of \<open>clamp_overflow\<close> does not fail, and the sum handed to
  \<open>clamp_overflow\<close> has only copies of bit 18 above position 18 (its arithmetic
  shift by 18 is all zeros or all ones).
\<close>

theorem sine_cosine_total:
  assumes "v < 2 ^ 20"
  shows "(\<exists>s. sine v = Inr s) \<and> (\<exists>c. cosine v = Inr c)
           \<and> sine v \<noteq> Inl AssertionFailure \<and> cosine v \<noteq> Inl AssertionFailure
           \<and> (signed_drop_bit 18 (sine_sum v) = 0 \<or> signed_drop_bit 18 (sine_sum v) = - 1)
           \<and> (signed_drop_bit 18 (cosine_sum v) = 0 \<or> signed_drop_bit 18 (cosine_sum v) = - 1)"
proof -
  have "- (2 ^ 18) \<le> sint (sine_sum v) \<and> sint (sine_sum v) < 2 ^ 18"
    using sine_sum_range [of v] by simp
  then have s: "signed_drop_bit 18 (sine_sum v) = 0 \<or> signed_drop_bit 18 (sine_sum v) = - 1"
    by (simp only: sdb_fits_iff)
  have "- (2 ^ 18) \<le> sint (cosine_sum v) \<and> sint (cosine_sum v) < 2 ^ 18"
    using cosine_sum_range [of v] by simp
  then have c: "signed_drop_bit 18 (cosine_sum v) = 0 \<or> signed_drop_bit 18 (cosine_sum v) = - 1"
    by (simp only: sdb_fits_iff)
  show ?thesis using s c by (simp add: sine_eq cosine_eq)
qed

theorem sine_cosine_total_witness:
  "(786433 :: 64 word) < 2 ^ 20
     \<and> (\<exists>s. sine 786433 = Inr s) \<and> (\<exists>c. cosine 786433 = Inr c)
     \<and> sine 786433 \<noteq> Inl AssertionFailure \<and> cosine 786433 \<noteq> Inl AssertionFailure
     \<and> (signed_drop_bit 18 (sine_sum 786433) = 0 \<or> signed_drop_bit 18 (sine_sum 786433) = - 1)
     \<and> (signed_drop_bit 18 (cosine_sum 786433) = 0
          \<or> signed_drop_bit 18 (cosine_sum 786433) = - 1)"
  using sine_cosine_total [of 786433] by simp

text \<open>
  C9: for every input in \<open>[0, 2 ^ 20)\<close> the values returned by \<open>sine\<close> and
  \<open>cosine\<close> lie in the signed 18-bit range \<open>[-131072, 131071]\<close>; in particular
  neither function returns \<open>131072\<close>.
\<close>

theorem sine_cosine_18bit:
  assumes "v < 2 ^ 20"
  shows "\<exists>s c. sine v = Inr s \<and> cosine v = Inr c
           \<and> - 131072 \<le> sint s \<and> sint s \<le> 131071
           \<and> - 131072 \<le> sint c \<and> sint c \<le> 131071
           \<and> s \<noteq> 131072 \<and> c \<noteq> 131072"
proof -
  have n: "sint (x :: 64 word) \<le> 131071 \<Longrightarrow> x \<noteq> 131072" for x by auto
  show ?thesis
    using saturate18_range [of "sine_sum v"] saturate18_range [of "cosine_sum v"]
      n [of "saturate18 (sine_sum v)"] n [of "saturate18 (cosine_sum v)"]
    by (simp add: sine_eq cosine_eq)
qed

text \<open>The quarter turn, where \<open>sine\<close> sets its sum to \<open>1 << 17\<close>, is such an input.\<close>

theorem sine_cosine_18bit_witness:
  "(262144 :: 64 word) < 2 ^ 20
     \<and> (\<exists>s c. sine 262144 = Inr s \<and> cosine 262144 = Inr c
           \<and> - 131072 \<le> sint s \<and> sint s \<le> 131071
           \<and> - 131072 \<le> sint c \<and> sint c \<le> 131071
           \<and> s \<noteq> 131072 \<and> c \<noteq> 131072)"
  using sine_cosine_18bit [of 262144] by simp

text \<open>
  C10: bits 20 and above of the argument are ignored: for every 64-bit \<open>v\<close>,
  \<open>sine v = sine (v mod 2 ^ 20)\<close> and \<open>cosine v = cosine (v mod 2 ^ 20)\<close>, where
  \<open>mod\<close> on words keeps the low 20 bits.
\<close>

theorem sine_cosine_low20:
  "sine v = sine (v mod 2 ^ 20) \<and> cosine v = cosine (v mod 2 ^ 20)"
  by (simp only: sine_def cosine_def sine_sum_alt cosine_sum_alt fold_x1_low20 low20_parts)

text \<open>
  C5 (as stated: for every 20-bit \<open>v\<close>, \<open>sine (v XOR 2 ^ 19)\<close> is the two's
  complement negation of \<open>sine v\<close>). It fails at the quarter turn: the sum
  \<open>131072\<close> is saturated to \<open>131071\<close>, while its negation \<open>- 131072\<close> fits in 18
  bits and is returned as it is.
\<close>

theorem sine_flip_high0_quarter_turn:
  "sine 262144 = Inr 131071 \<and> sine (262144 XOR 2 ^ 19) = Inr (- 131072)
     \<and> (- 131072 :: 64 word) \<noteq> - 131071"
  by (simp add: sine_def sine_sum_def clamp_overflow_def)

text \<open>
  C5 (amended): for every 20-bit \<open>v\<close>, both \<open>sine v\<close> and \<open>sine (v XOR 2 ^ 19)\<close>
  return a value, and the second is the two's complement negation of the first
  exactly when neither of the two is \<open>- 131072\<close>, the saturated minimum.
\<close>

theorem sine_flip_high0:
  assumes "v < 2 ^ 20"
  shows "\<exists>r r'. sine v = Inr r \<and> sine (v XOR 2 ^ 19) = Inr r'
           \<and> (r' = - r) = (r \<noteq> - 131072 \<and> r' \<noteq> - 131072)"
  using sine_flip19 [of v] by (simp only: sine_eq) blast

theorem sine_flip_high0_witness:
  "(100000 :: 64 word) < 2 ^ 20
     \<and> (\<exists>r r'. sine 100000 = Inr r \<and> sine (100000 XOR 2 ^ 19) = Inr r'
           \<and> (r' = - r) = (r \<noteq> - 131072 \<and> r' \<noteq> - 131072))"
  using sine_flip_high0 [of 100000] by simp

text \<open>
  C4 (as stated: for any value and any width \<open>w\<close> such that the bits above
  position \<open>w\<close> repeat bit \<open>w\<close>, differing bits \<open>w\<close> and \<open>w - 1\<close> give
  \<open>- 2 ^ (w - 1)\<close> or \<open>2 ^ (w - 1) - 1\<close>). The two constants are computed by
  shifting the \<open>int\<close> constants \<open>-1\<close> and \<open>1\<close>, which are 32 bits wide: at width
  40 and value \<open>2 ^ 39\<close> the code evaluates \<open>1 << 39\<close> on an \<open>int\<close> and does not
  return \<open>2 ^ 39 - 1\<close>.
\<close>

theorem clamp_overflow_width_40:
  "signed_drop_bit 40 (2 ^ 39 :: 64 word) = 0
     \<and> bit (2 ^ 39 :: 64 word) 39 \<and> \<not> bit (2 ^ 39 :: 64 word) 40
     \<and> clamp_overflow (2 ^ 39) 40 = Inl UndefinedShift
     \<and> clamp_overflow (2 ^ 39) 40 \<noteq> Inr (2 ^ 39 - 1)"
  by (simp add: clamp_overflow_def)

text \<open>
  C4 (amended): for every width \<open>w\<close> from 1 to 63 and every value whose bits
  above position \<open>w\<close> repeat bit \<open>w\<close> (its arithmetic shift by \<open>w\<close> is all zeros
  or all ones), provided that, when bits \<open>w\<close> and \<open>w - 1\<close> differ, the constant
  of the saturating branch has a defined value on \<open>int\<close> (\<open>w\<close> at most 32 when
  bit \<open>w\<close> is set, at most 31 when it is clear), \<open>clamp_overflow\<close> returns a
  value \<open>r\<close>: if the two bits differ, \<open>r\<close> is \<open>- 2 ^ (w - 1)\<close> when bit \<open>w\<close> is set
  and \<open>2 ^ (w - 1) - 1\<close> otherwise; if they agree, \<open>r\<close> is the value unchanged;
  and in all these cases \<open>r\<close> shifted right by \<open>w - 1\<close> is all zeros or all ones.
\<close>

theorem clamp_overflow_contract:
  assumes "1 \<le> w" "w \<le> 63"
    and "signed_drop_bit (nat w) v = 0 \<or> signed_drop_bit (nat w) v = - 1"
    and "bit v (nat w) = bit v (nat (w - 1)) \<or> w \<le> (if bit v (nat w) then 32 else 31)"
  shows "\<exists>r. clamp_overflow v w = Inr r
           \<and> r = (if bit v (nat w) \<noteq> bit v (nat (w - 1))
                  then if bit v (nat w) then - (2 ^ nat (w - 1)) else 2 ^ nat (w - 1) - 1
                  else v)
           \<and> (signed_drop_bit (nat (w - 1)) r = 0 \<or> signed_drop_bit (nat (w - 1)) r = - 1)"
  using clamp_overflow_post [of v w] clamp_overflow_fits [OF assms] by simp

text \<open>
  Instances: both saturating branches at width 18, the saturation to the
  minimum at width 32, and a value returned unchanged at width 40.
\<close>

theorem clamp_overflow_contract_witness:
  "(1 :: int) \<le> 18 \<and> (18 :: int) \<le> 63
     \<and> (signed_drop_bit (nat 18) (- 200000 :: 64 word) = 0
          \<or> signed_drop_bit (nat 18) (- 200000 :: 64 word) = - 1)
     \<and> (bit (- 200000 :: 64 word) (nat 18) = bit (- 200000 :: 64 word) (nat (18 - 1))
          \<or> (18 :: int) \<le> (if bit (- 200000 :: 64 word) (nat 18) then 32 else 31))
     \<and> (\<exists>r. clamp_overflow (- 200000) 18 = Inr r
           \<and> r = (if bit (- 200000 :: 64 word) (nat 18) \<noteq> bit (- 200000 :: 64 word) (nat (18 - 1))
                  then if bit (- 200000 :: 64 word) (nat 18)
                       then - (2 ^ nat (18 - 1)) else 2 ^ nat (18 - 1) - 1
                  else - 200000)
           \<and> (signed_drop_bit (nat (18 - 1)) r = 0 \<or> signed_drop_bit (nat (18 - 1)) r = - 1))
     \<and> clamp_overflow (- 200000) 18 = Inr (- 131072)
     \<and> clamp_overflow 200000 18 = Inr 131071
     \<and> clamp_overflow (- 4294967296) 32 = Inr (- 2147483648)
     \<and> clamp_overflow (- 5) 40 = Inr (- 5)"
  using clamp_overflow_contract [of 18 "- 200000"] clamp_overflow_contract [of 18 200000]
    clamp_overflow_contract [of 32 "- 4294967296"] clamp_overflow_contract [of 40 "- 5"]
  by (simp add: clamp_overflow_def)

text \<open>
  C8 (as stated: every value that violates the two-bit check of the clamp makes
  the computation abort). A value whose bits \<open>w\<close> and \<open>w - 1\<close> differ is replaced
  by a saturated value that passes the assertion: \<open>131072\<close> at width 18 is
  returned as \<open>131071\<close>, and so is \<open>2 ^ 20 + 2 ^ 17\<close>, whose bits above 18 are not
  a sign extension.
\<close>

theorem clamp_overflow_two_bit_violation_returns:
  "bit (131072 :: 64 word) 18 \<noteq> bit (131072 :: 64 word) 17
     \<and> clamp_overflow 131072 18 = Inr 131071
     \<and> bit (1179648 :: 64 word) 18 \<noteq> bit (1179648 :: 64 word) 17
     \<and> clamp_overflow 1179648 18 = Inr 131071"
  by (simp add: clamp_overflow_def)

text \<open>
  C8 (amended): for every width \<open>w\<close> from 1 to 63, \<open>clamp_overflow\<close> aborts on its
  assertion exactly when bits \<open>w\<close> and \<open>w - 1\<close> of the value agree and the value
  shifted right by \<open>w - 1\<close> is neither all zeros nor all ones. A value whose two
  bits differ is not aborted: it is replaced by \<open>- 2 ^ (w - 1)\<close> when bit \<open>w\<close> is
  set (\<open>w\<close> at most 32) and by \<open>2 ^ (w - 1) - 1\<close> when it is clear (\<open>w\<close> at most
  31), and that value is returned.
\<close>

theorem clamp_overflow_aborts_iff:
  assumes "1 \<le> w" "w \<le> 63"
  shows "(clamp_overflow v w = Inl AssertionFailure)
           = (bit v (nat w) = bit v (nat (w - 1))
              \<and> signed_drop_bit (nat (w - 1)) v \<noteq> 0
              \<and> signed_drop_bit (nat (w - 1)) v \<noteq> - 1)
         \<and> (bit v (nat w) \<noteq> bit v (nat (w - 1)) \<and> w \<le> (if bit v (nat w) then 32 else 31)
              \<longrightarrow> clamp_overflow v w
                    = Inr (if bit v (nat w) then - (2 ^ nat (w - 1)) else 2 ^ nat (w - 1) - 1))"
  unfolding clamp_overflow_bits [OF assms] by (auto split: if_splits)

text \<open>
  Instances: an abort at width 18 and one at width 40, and the two saturating
  branches at width 18, the second on a value whose bits above 18 are not a
  sign extension.
\<close>

theorem clamp_overflow_aborts_iff_witness:
  "(1 :: int) \<le> 18 \<and> (18 :: int) \<le> 63
     \<and> clamp_overflow 1048576 18 = Inl AssertionFailure
     \<and> bit (1048576 :: 64 word) (nat 18) = bit (1048576 :: 64 word) (nat (18 - 1))
     \<and> signed_drop_bit (nat (18 - 1)) (1048576 :: 64 word) \<noteq> 0
     \<and> signed_drop_bit (nat (18 - 1)) (1048576 :: 64 word) \<noteq> - 1
     \<and> (1 :: int) \<le> 40 \<and> (40 :: int) \<le> 63
     \<and> clamp_overflow 35184372088832 40 = Inl AssertionFailure
     \<and> bit (- 200000 :: 64 word) (nat 18) \<noteq> bit (- 200000 :: 64 word) (nat (18 - 1))
     \<and> (18 :: int) \<le> (if bit (- 200000 :: 64 word) (nat 18) then 32 else 31)
     \<and> clamp_overflow (- 200000) 18 = Inr (- (2 ^ nat (18 - 1)))
     \<and> bit (1179648 :: 64 word) (nat 18) \<noteq> bit (1179648 :: 64 word) (nat (18 - 1))
     \<and> (18 :: int) \<le> (if bit (1179648 :: 64 word) (nat 18) then 32 else 31)
     \<and> clamp_overflow 1179648 18 = Inr (2 ^ nat (18 - 1) - 1)"
  using clamp_overflow_aborts_iff [of 18 1048576] clamp_overflow_aborts_iff [of 40 35184372088832]
    clamp_overflow_aborts_iff [of 18 "- 200000"] clamp_overflow_aborts_iff [of 18 1179648]
  by (simp add: clamp_overflow_def)

end
